theory Spec2Isabelle
  imports Complex_Main "HOL-Library.Word"
begin

section \<open>Data model\<close>

text \<open>
  A track as the traversal code reads it: the handlers compare \<open>track.id\<close> and the
  App component loads \<open>track.url\<close>.
\<close>

record track =
  track_id :: nat
  url :: string

text \<open>
  The media element behind \<open>audioRef.current\<close>: the fields the handlers assign.
\<close>

record audio_element =
  el_currentTime :: real
  el_paused :: bool
  el_volume :: real
  el_src :: string

definition play :: "audio_element \<Rightarrow> audio_element" where
  "play a = a\<lparr>el_paused := False\<rparr>"

definition pause :: "audio_element \<Rightarrow> audio_element" where
  "pause a = a\<lparr>el_paused := True\<rparr>"

datatype js_error = TypeError

text \<open>
  \<open>Array.prototype.findIndex\<close>: the index of the first element satisfying the
  predicate, or \<open>-1\<close>.
\<close>

fun findIndex :: "('a \<Rightarrow> bool) \<Rightarrow> 'a list \<Rightarrow> int" where
  "findIndex P [] = - 1"
| "findIndex P (x # xs) =
     (if P x then 0
      else (let r = findIndex P xs in if r < 0 then - 1 else r + 1))"

text \<open>
  Reading \<open>xs[i]\<close> in JavaScript: \<open>undefined\<close> (here \<open>None\<close>) outside the array.
\<close>

definition js_index :: "'a list \<Rightarrow> int \<Rightarrow> 'a option" where
  "js_index xs i = (if 0 \<le> i \<and> i < int (length xs) then Some (xs ! nat i) else None)"

text \<open>
  The callback \<open>track => track.id === currentTrack?.id\<close>: with no current track the
  right-hand side is \<open>undefined\<close>, which no track id equals.
\<close>

definition same_id :: "track option \<Rightarrow> track \<Rightarrow> bool" where
  "same_id cur t = (case cur of None \<Rightarrow> False | Some c \<Rightarrow> track_id t = track_id c)"

section \<open>AudioPlayer component (src/components/AudioPlayer.jsx)\<close>

datatype repeat_mode = RepeatOff | RepeatOne | RepeatAll

text \<open>
  Props (\<open>currentTrack\<close>, \<open>playlist\<close>, \<open>onTrackChange\<close>), the audio ref and the React
  state the handlers read and write. The sink \<open>onTrackChange\<close> belongs to the parent:
  \<open>hasOnTrackChange\<close> says whether the prop was passed, and \<open>onTrackChange_calls\<close>
  records, in order, the argument of every call the component makes to it.
\<close>

record player =
  currentTrack :: "track option"
  playlist :: "track list"
  hasOnTrackChange :: bool
  onTrackChange_calls :: "track option list"
  audioRef :: "audio_element option"
  isPlaying :: bool
  volume :: real
  isMuted :: bool
  isShuffled :: bool
  repeatMode :: repeat_mode

definition onTrackChange :: "track option \<Rightarrow> player \<Rightarrow> player" where
  "onTrackChange arg s = s\<lparr>onTrackChange_calls := onTrackChange_calls s @ [arg]\<rparr>"

definition handlePrevious :: "player \<Rightarrow> js_error + player" where
  "handlePrevious s =
     (if playlist s = [] \<or> \<not> hasOnTrackChange s then Inr s
      else
        let currentIndex = findIndex (same_id (currentTrack s)) (playlist s);
            previousIndex = (if currentIndex > 0 then currentIndex - 1
                             else int (length (playlist s)) - 1)
        in Inr (onTrackChange (js_index (playlist s) previousIndex) s))"

text \<open>
  \<open>handleNext\<close> is both the click handler of the skip-forward button and the body of
  the element's \<open>ended\<close> listener (\<open>handleEnded = () => handleNext()\<close>); the state
  \<open>s\<close> is the props and state that the running closure reads, which for the button
  is the current render. The argument
  \<open>rnd\<close> is the value \<open>Math.random()\<close> returns, a number in \<open>[0, 1)\<close>. With repeat
  mode \<open>one\<close> the handler assigns to \<open>audioRef.current.currentTime\<close>, a TypeError when
  the ref is null.
\<close>

definition handleNext :: "real \<Rightarrow> player \<Rightarrow> js_error + player" where
  "handleNext rnd s =
     (if playlist s = [] \<or> \<not> hasOnTrackChange s then Inr s
      else if repeatMode s = RepeatOne then
        (case audioRef s of
           None \<Rightarrow> Inl TypeError
         | Some a \<Rightarrow> Inr (s\<lparr>audioRef := Some (play (a\<lparr>el_currentTime := 0\<rparr>))\<rparr>))
      else
        let currentIndex = findIndex (same_id (currentTrack s)) (playlist s);
            nextIndex = (if isShuffled s then \<lfloor>rnd * real (length (playlist s))\<rfloor>
                         else if currentIndex < int (length (playlist s)) - 1
                              then currentIndex + 1 else 0)
        in if repeatMode s = RepeatOff \<and> currentIndex = int (length (playlist s)) - 1
           then Inr (s\<lparr>isPlaying := False\<rparr>)
           else Inr (onTrackChange (js_index (playlist s) nextIndex) s))"

text \<open>
  The element's \<open>ended\<close> listener. It is installed by an effect whose only dependency
  is \<open>currentTrack\<close>, so it runs the \<open>handleNext\<close> of the render in which \<open>currentTrack\<close>
  last changed: that render's \<open>playlist\<close>, \<open>onTrackChange\<close>, \<open>repeatMode\<close> and
  \<open>isShuffled\<close> (the record \<open>captured\<close>, whose \<open>currentTrack\<close> is the current one),
  whatever they have become since. The ref \<open>audioRef\<close> and the setter \<open>setIsPlaying\<close>
  are the same in every render, so the element and the \<open>isPlaying\<close> flag that the
  listener writes are those of the current state \<open>s\<close>, where the sink's calls are
  recorded too. \<open>closure_state\<close> is what the listener's \<open>handleNext\<close> reads.
\<close>

definition closure_state :: "player \<Rightarrow> player \<Rightarrow> player" where
  "closure_state captured s =
     captured\<lparr>audioRef := audioRef s, isPlaying := isPlaying s,
              onTrackChange_calls := onTrackChange_calls s\<rparr>"

definition handleEnded :: "real \<Rightarrow> player \<Rightarrow> player \<Rightarrow> js_error + player" where
  "handleEnded rnd captured s =
     (case handleNext rnd (closure_state captured s) of
        Inl e \<Rightarrow> Inl e
      | Inr r \<Rightarrow>
          Inr (s\<lparr>audioRef := audioRef r, isPlaying := isPlaying r,
                 onTrackChange_calls := onTrackChange_calls r\<rparr>))"

section \<open>App component (the page-level player)\<close>

text \<open>
  The page component keeps its own playlist (\<open>tracks\<close>) and session state and drives
  one audio element. Its repeat modes are the strings \<open>none\<close>, \<open>one\<close>, \<open>all\<close>.
  \<open>playTrack_calls\<close> records, in order, the argument of every call of \<open>playTrack\<close>.
  \<open>load\<close> is the element's load algorithm, which pauses it and rewinds to the start.
\<close>

datatype app_repeat_mode = ModeNone | ModeOne | ModeAll

record app =
  tracks :: "track list"
  app_currentTrack :: "track option"
  app_isPlaying :: bool
  app_currentTime :: real
  app_repeatMode :: app_repeat_mode
  app_audioRef :: "audio_element option"
  playTrack_calls :: "track option list"

definition load :: "audio_element \<Rightarrow> audio_element" where
  "load a = a\<lparr>el_currentTime := 0, el_paused := True\<rparr>"

definition togglePlayPause :: "app \<Rightarrow> app" where
  "togglePlayPause s =
     (case (app_audioRef s, app_currentTrack s) of
        (Some a, Some _) \<Rightarrow>
          if app_isPlaying s
          then s\<lparr>app_audioRef := Some (pause a), app_isPlaying := False\<rparr>
          else s\<lparr>app_audioRef := Some (play a), app_isPlaying := True\<rparr>
      | _ \<Rightarrow> s)"

definition playTrack :: "track option \<Rightarrow> app \<Rightarrow> js_error + app" where
  "playTrack arg s0 =
     (let s = s0\<lparr>playTrack_calls := playTrack_calls s0 @ [arg]\<rparr>
      in case arg of
           None \<Rightarrow> Inl TypeError
         | Some t \<Rightarrow>
             if same_id (app_currentTrack s) t then Inr (togglePlayPause s)
             else Inr (s\<lparr>app_currentTrack := Some t, app_currentTime := 0,
                          app_audioRef :=
                            map_option (\<lambda>a. load (a\<lparr>el_src := url t\<rparr>)) (app_audioRef s)\<rparr>))"

definition skipTrack :: "string \<Rightarrow> app \<Rightarrow> js_error + app" where
  "skipTrack direction s =
     (if length (tracks s) = 0 then Inr s
      else
        let currentIndex = findIndex (same_id (app_currentTrack s)) (tracks s);
            nextIndex =
              (if direction = ''next''
               then (if currentIndex + 1 \<ge> int (length (tracks s)) then 0 else currentIndex + 1)
               else (if currentIndex - 1 < 0 then int (length (tracks s)) - 1
                     else currentIndex - 1))
        in playTrack (js_index (tracks s) nextIndex) s)"

definition onEnded :: "app \<Rightarrow> js_error + app" where
  "onEnded s =
     (if app_repeatMode s = ModeOne
      then Inr (s\<lparr>app_audioRef := map_option play (app_audioRef s)\<rparr>)
      else if app_repeatMode s = ModeAll \<or> length (tracks s) > 1 then skipTrack ''next'' s
      else Inr (s\<lparr>app_isPlaying := False\<rparr>))"

section \<open>Frequency data (src/utils/audioUtils.js and the useAudioContext hook)\<close>

text \<open>
  An analyser node as the sampler sees it: its \<open>fftSize\<close> and, per bin, the byte
  magnitude that \<open>getByteFrequencyData\<close> currently writes. \<open>createAudioContext\<close>
  configures \<open>fftSize = 256\<close>.
\<close>

record analyser =
  fftSize :: nat
  byteFrequencyData :: "nat \<Rightarrow> 8 word"

definition frequencyBinCount :: "analyser \<Rightarrow> nat" where
  "frequencyBinCount a = fftSize a div 2"

definition createAudioContext_analyzer :: "(nat \<Rightarrow> 8 word) \<Rightarrow> analyser" where
  "createAudioContext_analyzer spectrum = \<lparr>fftSize = 256, byteFrequencyData = spectrum\<rparr>"

definition getFrequencyData :: "analyser option \<Rightarrow> 8 word list" where
  "getFrequencyData analyzer =
     (case analyzer of
        None \<Rightarrow> []
      | Some a \<Rightarrow> map (byteFrequencyData a) [0..<frequencyBinCount a])"

text \<open>
  JavaScript numbers as far as \<open>getFrequencyBins\<close> needs them: finite values are
  modelled by exact reals, and the results of dividing by zero are kept apart.
  \<open>js_div x d\<close> is \<open>x / d\<close> for a finite divisor \<open>d \<ge> 0\<close> (here an element count or
  \<open>255\<close>).
\<close>

datatype js_number = Num real | PosInfinity | NegInfinity | NaN

fun js_div :: "js_number \<Rightarrow> real \<Rightarrow> js_number" where
  "js_div (Num a) d =
     (if d \<noteq> 0 then Num (a / d)
      else if a = 0 then NaN
      else if 0 < a then PosInfinity else NegInfinity)"
| "js_div PosInfinity d = PosInfinity"
| "js_div NegInfinity d = NegInfinity"
| "js_div NaN d = NaN"

record frequency_bins =
  bass :: js_number
  mid :: js_number
  treble :: js_number

text \<open>
  The loop \<open>for (let i = start; i < stop; i++) acc += frequencyData[i]\<close>. Every
  caller has \<open>stop \<le> frequencyData.length\<close>, so each read is inside the array.
\<close>

function sum_bins :: "8 word list \<Rightarrow> nat \<Rightarrow> nat \<Rightarrow> real \<Rightarrow> real" where
  "sum_bins frequencyData i stop acc =
     (if i < stop
      then sum_bins frequencyData (Suc i) stop (acc + real (unat (frequencyData ! i)))
      else acc)"
  by pat_completeness auto
termination
  by (relation "measure (\<lambda>(frequencyData, i, stop, acc). stop - i)") auto

declare sum_bins.simps [simp del]

text \<open>
  \<open>Math.floor(dataLength * 0.1)\<close> and \<open>Math.floor(dataLength * 0.4)\<close> are taken over
  the reals; for an array length the double-precision product has the same floor.
\<close>

definition getFrequencyBins :: "8 word list \<Rightarrow> frequency_bins" where
  "getFrequencyBins frequencyData =
     (if length frequencyData = 0 then \<lparr>bass = Num 0, mid = Num 0, treble = Num 0\<rparr>
      else
        let dataLength = length frequencyData;
            bassEnd = nat \<lfloor>real dataLength * 0.1\<rfloor>;
            midEnd = nat \<lfloor>real dataLength * 0.4\<rfloor>;
            bass_sum = sum_bins frequencyData 0 bassEnd 0;
            mid_sum = sum_bins frequencyData bassEnd midEnd 0;
            treble_sum = sum_bins frequencyData midEnd dataLength 0
        in \<lparr>bass = js_div (js_div (Num bass_sum) (real bassEnd)) 255,
            mid = js_div (js_div (Num mid_sum) (real midEnd - real bassEnd)) 255,
            treble = js_div (js_div (Num treble_sum) (real dataLength - real midEnd)) 255\<rparr>)"

text \<open>
  The three sub-ranges of the bin axis and the arithmetic mean, as the band summary is
  described: the first tenth, the bins from there up to four tenths, and the rest.
\<close>

definition band_low :: "'a list \<Rightarrow> 'a list" where
  "band_low xs = take (length xs div 10) xs"

definition band_mid :: "'a list \<Rightarrow> 'a list" where
  "band_mid xs = take (4 * length xs div 10 - length xs div 10) (drop (length xs div 10) xs)"

definition band_high :: "'a list \<Rightarrow> 'a list" where
  "band_high xs = drop (4 * length xs div 10) xs"

definition arithmetic_mean :: "8 word list \<Rightarrow> real" where
  "arithmetic_mean xs = (\<Sum>x\<leftarrow>xs. real (unat x)) / real (length xs)"

section \<open>Volume and mute\<close>

text \<open>
  The click on the volume bar: \<open>e.clientX\<close> and the bar's bounding rectangle. The bar
  is laid out with a positive width.
\<close>

record click =
  clientX :: real
  rect_left :: real
  rect_width :: real

definition handleVolumeChange :: "click \<Rightarrow> player \<Rightarrow> player" where
  "handleVolumeChange e s =
     (let percent = (clientX e - rect_left e) / rect_width e;
          newVolume = max 0 (min 1 percent)
      in s\<lparr>volume := newVolume,
           audioRef := map_option (\<lambda>a. a\<lparr>el_volume := newVolume\<rparr>) (audioRef s),
           isMuted := (newVolume = 0)\<rparr>)"

definition toggleMute :: "player \<Rightarrow> player" where
  "toggleMute s =
     (case audioRef s of
        None \<Rightarrow> s
      | Some a \<Rightarrow>
          if isMuted s
          then s\<lparr>audioRef := Some (a\<lparr>el_volume := volume s\<rparr>), isMuted := False\<rparr>
          else s\<lparr>audioRef := Some (a\<lparr>el_volume := 0\<rparr>), isMuted := True\<rparr>)"

text \<open>
  The hook's \<open>setVolume\<close>: the argument \<open>gainNode\<close> is the gain value behind
  \<open>gainNodeRef.current\<close>, absent before the context is initialised.
\<close>

definition setVolume :: "real \<Rightarrow> real option \<Rightarrow> real option" where
  "setVolume level gainNode =
     (case gainNode of
        None \<Rightarrow> None
      | Some _ \<Rightarrow> (let clampedVolume = max 0 (min 1 level) in Some clampedVolume))"

section \<open>Example data\<close>

definition trackA :: track where "trackA = \<lparr>track_id = 1, url = ''a.mp3''\<rparr>"
definition trackB :: track where "trackB = \<lparr>track_id = 2, url = ''b.mp3''\<rparr>"
definition trackC :: track where "trackC = \<lparr>track_id = 3, url = ''c.mp3''\<rparr>"

definition element0 :: audio_element where
  "element0 = \<lparr>el_currentTime = 180, el_paused = False, el_volume = 1, el_src = ''c.mp3''\<rparr>"

text \<open>Playlist \<open>[A, B, C]\<close>, playing \<open>C\<close>, shuffle off, repeat off, a sink registered.\<close>

definition playerABC :: player where
  "playerABC = \<lparr>currentTrack = Some trackC, playlist = [trackA, trackB, trackC],
     hasOnTrackChange = True, onTrackChange_calls = [], audioRef = Some element0,
     isPlaying = True, volume = 1, isMuted = False, isShuffled = False,
     repeatMode = RepeatOff\<rparr>"

text \<open>The page player with tracks \<open>[A, B, C]\<close>, playing \<open>C\<close>, repeat mode \<open>none\<close>.\<close>

definition appABC :: app where
  "appABC = \<lparr>tracks = [trackA, trackB, trackC], app_currentTrack = Some trackC,
     app_isPlaying = True, app_currentTime = 180, app_repeatMode = ModeNone,
     app_audioRef = Some element0, playTrack_calls = []\<rparr>"

text \<open>A frequency sample of sixteen bins, the shortest an analyser delivers.\<close>

definition sample16 :: "8 word list" where
  "sample16 = [255, 0, 255, 255, 0, 0, 51, 51, 0, 0, 0, 0, 0, 0, 0, 0]"

text \<open>Clicks at 140% and at -20% of a volume bar 100 pixels wide.\<close>

definition click_above :: click where
  "click_above = \<lparr>clientX = 140, rect_left = 0, rect_width = 100\<rparr>"

definition click_below :: click where
  "click_below = \<lparr>clientX = - 20, rect_left = 0, rect_width = 100\<rparr>"

section \<open>Auxiliary lemmas\<close>

lemma findIndex_ge: "- 1 \<le> findIndex P xs"
  by (induction xs) (auto simp: Let_def)

lemma findIndex_lt: "findIndex P xs < int (length xs)"
  by (induction xs) (auto simp: Let_def)

lemma findIndex_first:
  "i < length xs \<Longrightarrow> P (xs ! i) \<Longrightarrow> \<forall>j<i. \<not> P (xs ! j) \<Longrightarrow> findIndex P xs = int i"
proof (induction xs arbitrary: i)
  case Nil
  then show ?case by simp
next
  case (Cons x xs)
  show ?case
  proof (cases i)
    case 0
    with Cons.prems show ?thesis by simp
  next
    case (Suc k)
    from Cons.prems Suc have nx: "\<not> P x" by force
    from Cons.prems Suc have "k < length xs" "P (xs ! k)" by simp_all
    moreover from Cons.prems Suc have "\<forall>j<k. \<not> P (xs ! j)" by force
    ultimately have "findIndex P xs = int k" by (rule Cons.IH)
    with nx Suc show ?thesis by (simp add: Let_def)
  qed
qed

lemma findIndex_none: "\<forall>x \<in> set xs. \<not> P x \<Longrightarrow> findIndex P xs = - 1"
  by (induction xs) (auto simp: Let_def)

lemma findIndex_same_id:
  assumes "distinct (map track_id xs)" and "i < length xs"
  shows "findIndex (same_id (Some (xs ! i))) xs = int i"
proof (rule findIndex_first)
  show "i < length xs" by fact
  show "same_id (Some (xs ! i)) (xs ! i)" by (simp add: same_id_def)
  show "\<forall>j<i. \<not> same_id (Some (xs ! i)) (xs ! j)"
  proof (intro allI impI)
    fix j assume "j < i"
    with assms have "j < length (map track_id xs)" "i < length (map track_id xs)" "j \<noteq> i"
      by simp_all
    with assms(1) have "map track_id xs ! j \<noteq> map track_id xs ! i"
      by (simp only: nth_eq_iff_index_eq not_False_eq_True)
    with \<open>j < i\<close> assms(2) show "\<not> same_id (Some (xs ! i)) (xs ! j)"
      by (simp add: same_id_def)
  qed
qed

lemma js_index_nat: "i < length xs \<Longrightarrow> js_index xs (int i) = Some (xs ! i)"
  by (simp add: js_index_def)

lemma findIndex_last:
  assumes "distinct (map track_id xs)" and "xs \<noteq> []"
  shows "findIndex (same_id (Some (last xs))) xs = int (length xs) - 1"
proof -
  from assms(2) have l: "length xs - 1 < length xs" by simp
  from assms(2) have "last xs = xs ! (length xs - 1)" by (rule last_conv_nth)
  with findIndex_same_id [OF assms(1) l]
  have "findIndex (same_id (Some (last xs))) xs = int (length xs - 1)" by simp
  with assms(2) show ?thesis by (cases xs) simp_all
qed


lemma shuffle_index_range:
  assumes "0 \<le> rnd" and "rnd < 1" and "0 < n"
  shows "0 \<le> \<lfloor>rnd * real n\<rfloor> \<and> \<lfloor>rnd * real n\<rfloor> < int n"
proof
  from assms(1) have "0 \<le> rnd * real n" by simp
  then show "0 \<le> \<lfloor>rnd * real n\<rfloor>" by simp
  from assms(2,3) have "rnd * real n < 1 * real n"
    by (intro mult_strict_right_mono) simp_all
  then have "rnd * real n < real_of_int (int n)" by simp
  then show "\<lfloor>rnd * real n\<rfloor> < int n" by (simp only: floor_less_iff)
qed

lemma js_index_in_range:
  "0 \<le> k \<Longrightarrow> k < int (length xs) \<Longrightarrow> \<exists>i<length xs. js_index xs k = Some (xs ! i)"
  by (auto simp: js_index_def intro!: exI [of _ "nat k"])

lemma handleNext_selects:
  assumes "0 \<le> rnd" and "rnd < 1" and "handleNext rnd s = Inr s'"
  shows "onTrackChange_calls s' = onTrackChange_calls s
         \<or> (\<exists>i<length (playlist s). s' = onTrackChange (Some (playlist s ! i)) s)"
proof (cases "playlist s = [] \<or> \<not> hasOnTrackChange s")
  case True
  with assms(3) show ?thesis by (simp add: handleNext_def)
next
  case guard: False
  then have pos: "0 < length (playlist s)" by simp
  show ?thesis
  proof (cases "repeatMode s = RepeatOne")
    case True
    with guard assms(3) show ?thesis
      by (auto simp: handleNext_def split: option.splits)
  next
    case notone: False
    define ci where "ci = findIndex (same_id (currentTrack s)) (playlist s)"
    define nextIndex where "nextIndex =
      (if isShuffled s then \<lfloor>rnd * real (length (playlist s))\<rfloor>
       else if ci < int (length (playlist s)) - 1 then ci + 1 else 0)"
    have ci_ge: "- 1 \<le> ci" unfolding ci_def by (rule findIndex_ge)
    have range: "0 \<le> nextIndex \<and> nextIndex < int (length (playlist s))"
    proof (cases "isShuffled s")
      case True
      with shuffle_index_range [OF assms(1,2) pos] show ?thesis by (simp add: nextIndex_def)
    next
      case False
      with ci_ge pos show ?thesis by (auto simp: nextIndex_def)
    qed
    show ?thesis
    proof (cases "repeatMode s = RepeatOff \<and> ci = int (length (playlist s)) - 1")
      case True
      with guard notone assms(3) have "s' = s\<lparr>isPlaying := False\<rparr>"
        by (simp add: handleNext_def Let_def ci_def)
      then show ?thesis by simp
    next
      case False
      with guard notone assms(3)
      have s': "s' = onTrackChange (js_index (playlist s) nextIndex) s"
        by (auto simp: handleNext_def Let_def ci_def nextIndex_def)
      from range obtain i where "i < length (playlist s)"
        and "js_index (playlist s) nextIndex = Some (playlist s ! i)"
        using js_index_in_range by blast
      with s' show ?thesis by auto
    qed
  qed
qed

lemma handlePrevious_selects:
  "handlePrevious s = Inr s
   \<or> (\<exists>i<length (playlist s). handlePrevious s = Inr (onTrackChange (Some (playlist s ! i)) s))"
proof (cases "playlist s = [] \<or> \<not> hasOnTrackChange s")
  case True
  then show ?thesis by (simp add: handlePrevious_def)
next
  case False
  then have pos: "0 < length (playlist s)" by simp
  define ci where "ci = findIndex (same_id (currentTrack s)) (playlist s)"
  define previousIndex where
    "previousIndex = (if ci > 0 then ci - 1 else int (length (playlist s)) - 1)"
  have "ci < int (length (playlist s))" unfolding ci_def by (rule findIndex_lt)
  with pos have "0 \<le> previousIndex" "previousIndex < int (length (playlist s))"
    by (auto simp: previousIndex_def)
  then obtain i where "i < length (playlist s)"
    and "js_index (playlist s) previousIndex = Some (playlist s ! i)"
    using js_index_in_range by blast
  moreover from False
  have "handlePrevious s = Inr (onTrackChange (js_index (playlist s) previousIndex) s)"
    by (simp add: handlePrevious_def Let_def ci_def previousIndex_def)
  ultimately show ?thesis by auto
qed

lemma skipTrack_selects:
  "skipTrack direction a = Inr a
   \<or> (\<exists>i<length (tracks a). skipTrack direction a = playTrack (Some (tracks a ! i)) a)"
proof (cases "length (tracks a) = 0")
  case True
  then show ?thesis by (simp add: skipTrack_def)
next
  case False
  then have pos: "0 < length (tracks a)" by simp
  define ci where "ci = findIndex (same_id (app_currentTrack a)) (tracks a)"
  define nextIndex where "nextIndex =
    (if direction = ''next''
     then (if ci + 1 \<ge> int (length (tracks a)) then 0 else ci + 1)
     else (if ci - 1 < 0 then int (length (tracks a)) - 1 else ci - 1))"
  have "- 1 \<le> ci" "ci < int (length (tracks a))"
    unfolding ci_def by (rule findIndex_ge, rule findIndex_lt)
  with pos have "0 \<le> nextIndex" "nextIndex < int (length (tracks a))"
    by (auto simp: nextIndex_def)
  then obtain i where "i < length (tracks a)"
    and "js_index (tracks a) nextIndex = Some (tracks a ! i)"
    using js_index_in_range by blast
  moreover from False
  have "skipTrack direction a = playTrack (js_index (tracks a) nextIndex) a"
    by (simp add: skipTrack_def Let_def ci_def nextIndex_def)
  ultimately show ?thesis by auto
qed

lemma playTrack_calls_Some:
  "playTrack (Some t) a = Inr a' \<Longrightarrow> playTrack_calls a' = playTrack_calls a @ [Some t]"
  by (auto simp: playTrack_def Let_def togglePlayPause_def
      split: if_splits option.splits prod.splits)

lemma playTrack_Some_ok: "\<exists>a'. playTrack (Some t) a = Inr a'"
  by (simp add: playTrack_def Let_def)

lemma floor_tenth: "nat \<lfloor>real n * 0.1\<rfloor> = n div 10"
proof -
  have "real n * 0.1 = real n / real 10" by simp
  then have "\<lfloor>real n * 0.1\<rfloor> = \<lfloor>real n / real 10\<rfloor>" by (rule arg_cong)
  also have "\<dots> = int (n div 10)" by (simp only: floor_divide_of_nat_eq)
  finally show ?thesis by simp
qed

lemma floor_four_tenths: "nat \<lfloor>real n * 0.4\<rfloor> = 4 * n div 10"
proof -
  have "real n * 0.4 = real (4 * n) / real 10" by simp
  then have "\<lfloor>real n * 0.4\<rfloor> = \<lfloor>real (4 * n) / real 10\<rfloor>" by (rule arg_cong)
  also have "\<dots> = int (4 * n div 10)" by (simp only: floor_divide_of_nat_eq)
  finally show ?thesis by simp
qed

lemma sum_bins_eq:
  "i \<le> stop \<Longrightarrow> stop \<le> length fd \<Longrightarrow>
     sum_bins fd i stop acc = acc + (\<Sum>x\<leftarrow>take (stop - i) (drop i fd). real (unat x))"
proof (induction fd i stop acc rule: sum_bins.induct)
  case (1 fd i stop acc)
  show ?case
  proof (cases "i < stop")
    case True
    with "1.prems" have il: "i < length fd" by simp
    from True have st: "stop - i = Suc (stop - Suc i)" by simp
    from il have dr: "drop i fd = fd ! i # drop (Suc i) fd" by (simp add: Cons_nth_drop_Suc)
    from True "1.prems" have
      "sum_bins fd (Suc i) stop (acc + real (unat (fd ! i)))
         = acc + real (unat (fd ! i))
           + (\<Sum>x\<leftarrow>take (stop - Suc i) (drop (Suc i) fd). real (unat x))"
      by (intro "1.IH") simp_all
    moreover have "sum_bins fd i stop acc = sum_bins fd (Suc i) stop (acc + real (unat (fd ! i)))"
      using True by (subst sum_bins.simps) simp
    ultimately show ?thesis by (simp only: st dr take_Suc_Cons list.map sum_list.Cons add.assoc)
  next
    case False
    with "1.prems" have "i = stop" by simp
    then show ?thesis by (subst sum_bins.simps) simp
  qed
qed

lemma byte_sum_bounds:
  fixes xs :: "8 word list"
  shows "0 \<le> (\<Sum>x\<leftarrow>xs. real (unat x)) \<and> (\<Sum>x\<leftarrow>xs. real (unat x)) \<le> 255 * real (length xs)"
proof (induction xs)
  case Nil
  then show ?case by simp
next
  case (Cons x xs)
  have "unat x < 2 ^ LENGTH(8)" by (rule unsigned_less)
  then have "unat x \<le> 255" by simp
  then have "real (unat x) \<le> real 255" by (simp only: of_nat_le_iff)
  then have "real (unat x) \<le> 255" by (simp only: of_nat_numeral)
  moreover have "0 \<le> real (unat x)" by (rule of_nat_0_le_iff)
  ultimately show ?case using Cons by (simp add: algebra_simps)
qed

lemma mean_bounds:
  fixes xs :: "8 word list"
  assumes "xs \<noteq> []"
  shows "0 \<le> arithmetic_mean xs / 255 \<and> arithmetic_mean xs / 255 \<le> 1"
proof -
  from assms have pos: "0 < real (length xs)" by simp
  from byte_sum_bounds [of xs] have
    lo: "0 \<le> (\<Sum>x\<leftarrow>xs. real (unat x))" and hi: "(\<Sum>x\<leftarrow>xs. real (unat x)) \<le> 255 * real (length xs)"
    by simp_all
  from lo pos have "0 \<le> arithmetic_mean xs" by (simp add: arithmetic_mean_def)
  moreover from hi pos have "arithmetic_mean xs \<le> 255"
    by (simp add: arithmetic_mean_def pos_divide_le_eq)
  ultimately show ?thesis by simp
qed

lemma bands_partition: "xs = band_low xs @ band_mid xs @ band_high xs"
proof -
  have le: "length xs div 10 \<le> 4 * length xs div 10" by (rule div_le_mono) simp
  have "band_mid xs @ band_high xs = drop (length xs div 10) xs"
  proof -
    have "drop (4 * length xs div 10) xs
            = drop (4 * length xs div 10 - length xs div 10) (drop (length xs div 10) xs)"
      using le by simp
    then show ?thesis unfolding band_mid_def band_high_def by (simp only: append_take_drop_id)
  qed
  then show ?thesis unfolding band_low_def by (simp only: append_take_drop_id)
qed

lemma bands_lengths:
  "length (band_low xs) = length xs div 10"
  "length (band_mid xs) = 4 * length xs div 10 - length xs div 10"
  "length (band_high xs) = length xs - 4 * length xs div 10"
  by (auto simp: band_low_def band_mid_def band_high_def)

lemma getFrequencyBins_means:
  assumes "10 \<le> length fd"
  shows "getFrequencyBins fd =
           \<lparr>bass = Num (arithmetic_mean (band_low fd) / 255),
            mid = Num (arithmetic_mean (band_mid fd) / 255),
            treble = Num (arithmetic_mean (band_high fd) / 255)\<rparr>"
proof -
  let ?n = "length fd"
  let ?b = "?n div 10"
  let ?m = "4 * ?n div 10"
  from assms have b: "0 < ?b" by simp
  from assms have bm: "?b < ?m" by linarith
  from assms have mn: "?m < ?n" by linarith
  have s1: "sum_bins fd 0 ?b 0 = (\<Sum>x\<leftarrow>band_low fd. real (unat x))"
    using mn bm by (simp add: sum_bins_eq band_low_def)
  have s2: "sum_bins fd ?b ?m 0 = (\<Sum>x\<leftarrow>band_mid fd. real (unat x))"
    using mn bm by (simp add: sum_bins_eq band_mid_def)
  have s3: "sum_bins fd ?m ?n 0 = (\<Sum>x\<leftarrow>band_high fd. real (unat x))"
    using mn by (simp add: sum_bins_eq band_high_def)
  have d2: "real ?m - real (length (band_low fd)) = real (length (band_mid fd))"
    using bm by (simp add: bands_lengths)
  have d3: "real ?n - real ?m = real (length (band_high fd))"
    using mn by (simp add: bands_lengths)
  have d1: "real ?b = real (length (band_low fd))" by (simp add: bands_lengths)
  have p1: "real (length (band_low fd)) \<noteq> 0" using b by (simp add: bands_lengths)
  have p2: "real (length (band_mid fd)) \<noteq> 0" using bm by (simp add: bands_lengths)
  have p3: "real (length (band_high fd)) \<noteq> 0" using mn by (simp add: bands_lengths)
  from assms have ne: "length fd \<noteq> 0" by auto
  have q1: "js_div (js_div (Num (\<Sum>x\<leftarrow>band_low fd. real (unat x)))
                      (real (length (band_low fd)))) 255
      = Num (arithmetic_mean (band_low fd) / 255)"
    using p1 by (simp add: arithmetic_mean_def)
  have q2: "js_div (js_div (Num (\<Sum>x\<leftarrow>band_mid fd. real (unat x)))
                      (real (length (band_mid fd)))) 255
      = Num (arithmetic_mean (band_mid fd) / 255)"
    using p2 by (simp add: arithmetic_mean_def)
  have q3: "js_div (js_div (Num (\<Sum>x\<leftarrow>band_high fd. real (unat x)))
                      (real (length (band_high fd)))) 255
      = Num (arithmetic_mean (band_high fd) / 255)"
    using p3 by (simp add: arithmetic_mean_def)
  show ?thesis
    unfolding getFrequencyBins_def Let_def floor_tenth floor_four_tenths s1 s2 s3 d1 d2 d3
      q1 q2 q3
    using ne by (simp only: if_False)
qed

text \<open>
  An analyser's \<open>fftSize\<close> is at least \<open>32\<close> (the hook sets \<open>2048\<close>), so the buffer
  that \<open>getFrequencyData\<close> fills for it has at least \<open>16\<close> bins.
\<close>

lemma analyser_buffer_length:
  assumes "32 \<le> fftSize a"
  shows "16 \<le> length (getFrequencyData (Some a))"
proof -
  have "length (getFrequencyData (Some a)) = fftSize a div 2"
    by (simp add: getFrequencyData_def frequencyBinCount_def)
  with assms show ?thesis by linarith
qed

text \<open>
  When nothing the listener reads has changed since it was installed, it does what the
  button's \<open>handleNext\<close> does; and at the last index \<open>handleNext\<close> itself stops with
  repeat mode off and wraps to index \<open>0\<close> with repeat mode \<open>all\<close>.
\<close>

lemma handleEnded_current:
  assumes "playlist captured = playlist s" and "hasOnTrackChange captured = hasOnTrackChange s"
    and "repeatMode captured = repeatMode s" and "isShuffled captured = isShuffled s"
    and "currentTrack captured = currentTrack s"
  shows "handleEnded rnd captured s = handleNext rnd s"
proof (cases "playlist s = [] \<or> \<not> hasOnTrackChange s")
  case True
  with assms show ?thesis
    by (simp add: handleEnded_def handleNext_def closure_state_def)
next
  case guard: False
  show ?thesis
  proof (cases "repeatMode s = RepeatOne")
    case True
    with guard assms show ?thesis
      by (cases "audioRef s") (simp_all add: handleEnded_def handleNext_def closure_state_def)
  next
    case notone: False
    show ?thesis
    proof (cases "repeatMode s = RepeatOff
        \<and> findIndex (same_id (currentTrack s)) (playlist s) = int (length (playlist s)) - 1")
      case True
      with guard notone assms show ?thesis
        by (simp add: handleEnded_def handleNext_def closure_state_def Let_def)
    next
      case False
      then have stop: "\<not> (repeatMode captured = RepeatOff
        \<and> findIndex (same_id (currentTrack captured)) (playlist captured)
            = int (length (playlist captured)) - 1)"
        using assms by simp
      from guard notone assms have g: "\<not> (playlist captured = [] \<or> \<not> hasOnTrackChange captured)"
        "repeatMode captured \<noteq> RepeatOne" by simp_all
      have "handleNext rnd (closure_state captured s)
          = Inr (onTrackChange
                   (js_index (playlist captured)
                      (if isShuffled captured then \<lfloor>rnd * real (length (playlist captured))\<rfloor>
                       else if findIndex (same_id (currentTrack captured)) (playlist captured)
                               < int (length (playlist captured)) - 1
                            then findIndex (same_id (currentTrack captured)) (playlist captured) + 1
                            else 0))
                   (closure_state captured s))"
        using g stop
        by (cases "repeatMode captured = RepeatOff")
          (simp_all add: handleNext_def closure_state_def Let_def)
      moreover have "handleNext rnd s
          = Inr (onTrackChange
                   (js_index (playlist s)
                      (if isShuffled s then \<lfloor>rnd * real (length (playlist s))\<rfloor>
                       else if findIndex (same_id (currentTrack s)) (playlist s)
                               < int (length (playlist s)) - 1
                            then findIndex (same_id (currentTrack s)) (playlist s) + 1
                            else 0))
                   s)"
        using guard notone False
        by (cases "repeatMode s = RepeatOff") (simp_all add: handleNext_def Let_def)
      ultimately show ?thesis
        using assms by (simp add: handleEnded_def closure_state_def onTrackChange_def)
    qed
  qed
qed

lemma handleNext_last_off_stops:
  assumes "hasOnTrackChange s" and "playlist s \<noteq> []" and "repeatMode s = RepeatOff"
    and "distinct (map track_id (playlist s))" and "currentTrack s = Some (last (playlist s))"
  shows "handleNext rnd s = Inr (s\<lparr>isPlaying := False\<rparr>)"
proof -
  from assms(2,4,5)
  have "findIndex (same_id (currentTrack s)) (playlist s) = int (length (playlist s)) - 1"
    by (simp add: findIndex_last)
  with assms(1,2,3) show ?thesis by (simp add: handleNext_def Let_def)
qed

lemma handleNext_last_all_wraps:
  assumes "hasOnTrackChange s" and "playlist s \<noteq> []" and "\<not> isShuffled s"
    and "repeatMode s = RepeatAll" and "distinct (map track_id (playlist s))"
    and "currentTrack s = Some (last (playlist s))"
  shows "handleNext rnd s = Inr (onTrackChange (Some (playlist s ! 0)) s)"
proof -
  have ci: "findIndex (same_id (currentTrack s)) (playlist s) = int (length (playlist s)) - 1"
    using assms(2,5,6) by (simp add: findIndex_last)
  have "js_index (playlist s) 0 = Some (playlist s ! 0)"
    using assms(2) by (simp add: js_index_def)
  with ci assms(1-4) show ?thesis by (simp add: handleNext_def Let_def)
qed

section \<open>Playlist traversal: claims C1 to C6\<close>

text \<open>
  C1 (as amended). With shuffle off, repeat mode off, a sink registered and the current
  track at index \<open>i\<close> of a playlist without duplicate ids, \<open>handleNext\<close> passes the
  track at index \<open>(i + 1) mod N\<close> to \<open>onTrackChange\<close> for every \<open>i\<close> below the last
  index. At the last index it does not wrap: the guard on repeat mode off sets
  \<open>isPlaying\<close> to false and returns without calling the sink.
\<close>

theorem C1_manual_next:
  assumes "hasOnTrackChange s" and "\<not> isShuffled s" and "repeatMode s = RepeatOff"
    and "distinct (map track_id (playlist s))"
    and "i < length (playlist s)" and "currentTrack s = Some (playlist s ! i)"
  shows "handleNext rnd s =
           (if i + 1 < length (playlist s)
            then Inr (onTrackChange (Some (playlist s ! ((i + 1) mod length (playlist s)))) s)
            else Inr (s\<lparr>isPlaying := False\<rparr>))"
proof -
  from assms(5) have ne: "playlist s \<noteq> []" by auto
  have ci: "findIndex (same_id (currentTrack s)) (playlist s) = int i"
    using assms(4,5,6) by (simp add: findIndex_same_id)
  show ?thesis
  proof (cases "i + 1 < length (playlist s)")
    case True
    then have "js_index (playlist s) (int i + 1) = Some (playlist s ! (i + 1))"
      using js_index_nat [of "i + 1" "playlist s"] by (simp add: add.commute)
    with True ne assms(1,2,3) ci show ?thesis
      by (simp add: handleNext_def Let_def)
  next
    case False
    with assms(5) have "int i = int (length (playlist s)) - 1" by linarith
    with False ne assms(1,2,3) ci show ?thesis
      by (simp add: handleNext_def Let_def)
  qed
qed

theorem C1_manual_next_witness:
  "handleNext 0 (playerABC\<lparr>currentTrack := Some trackA\<rparr>)
     = Inr (onTrackChange (Some trackB) (playerABC\<lparr>currentTrack := Some trackA\<rparr>))
   \<and> handleNext 0 playerABC = Inr (playerABC\<lparr>isPlaying := False\<rparr>)"
proof -
  let ?s = "playerABC\<lparr>currentTrack := Some trackA\<rparr>"
  have a1: "hasOnTrackChange ?s" "hasOnTrackChange playerABC" by (simp_all add: playerABC_def)
  have a2: "\<not> isShuffled ?s" "\<not> isShuffled playerABC" by (simp_all add: playerABC_def)
  have a3: "repeatMode ?s = RepeatOff" "repeatMode playerABC = RepeatOff"
    by (simp_all add: playerABC_def)
  have a4: "distinct (map track_id (playlist ?s))" "distinct (map track_id (playlist playerABC))"
    by (simp_all add: playerABC_def trackA_def trackB_def trackC_def)
  have a5: "0 < length (playlist ?s)" "2 < length (playlist playerABC)"
    by (simp_all add: playerABC_def)
  have a6: "currentTrack ?s = Some (playlist ?s ! 0)"
    "currentTrack playerABC = Some (playlist playerABC ! 2)"
    by (simp_all add: playerABC_def)
  have p: "playlist ?s = [trackA, trackB, trackC]" "playlist playerABC = [trackA, trackB, trackC]"
    by (simp_all add: playerABC_def)
  show ?thesis
    using C1_manual_next [OF a1(1) a2(1) a3(1) a4(1) a5(1) a6(1), of 0]
      C1_manual_next [OF a1(2) a2(2) a3(2) a4(2) a5(2) a6(2), of 0]
    by (simp add: p)
qed

text \<open>
  The claim as written fails at the last index: with playlist \<open>[A, B, C]\<close>, current
  track \<open>C\<close>, shuffle off and repeat off, no track is passed to the sink.
\<close>

theorem C1_last_index_counterexample:
  "handleNext 0 playerABC = Inr (playerABC\<lparr>isPlaying := False\<rparr>)
   \<and> onTrackChange_calls (playerABC\<lparr>isPlaying := False\<rparr>) = []
   \<and> handleNext 0 playerABC
       \<noteq> Inr (onTrackChange (Some ([trackA, trackB, trackC] ! ((2 + 1) mod 3))) playerABC)"
  by (simp add: handleNext_def playerABC_def Let_def same_id_def trackA_def trackB_def
      trackC_def onTrackChange_def)

text \<open>
  C2 (code defect). The claim asks that, with repeat mode off, the end of the track at
  the last index stops playback without wrapping. Two handlers break it. The App
  component's \<open>onEnded\<close> with tracks \<open>[A, B, C]\<close>, current track \<open>C\<close> and repeat mode
  \<open>none\<close> calls \<open>skipTrack('next')\<close>, which wraps: the current track becomes \<open>A\<close>. The
  AudioPlayer listener installed while repeat mode was \<open>all\<close> still wraps after repeat
  mode has been switched to off: with playlist \<open>[A, B, C]\<close> and current track \<open>C\<close> it
  passes \<open>A\<close> to the sink and leaves \<open>isPlaying\<close> true.
\<close>

theorem C2_track_end_repeat_off:
  "app_repeatMode appABC = ModeNone
   \<and> app_currentTrack appABC = Some (last (tracks appABC))
   \<and> onEnded appABC
       = Inr (appABC\<lparr>playTrack_calls := [Some trackA], app_currentTrack := Some trackA,
                app_currentTime := 0,
                app_audioRef := Some (load (element0\<lparr>el_src := ''a.mp3''\<rparr>))\<rparr>)
   \<and> repeatMode playerABC = RepeatOff
   \<and> currentTrack playerABC = Some (last (playlist playerABC))
   \<and> handleEnded 0 (playerABC\<lparr>repeatMode := RepeatAll\<rparr>) playerABC
       = Inr (onTrackChange (Some trackA) playerABC)
   \<and> isPlaying (onTrackChange (Some trackA) playerABC)"
proof -
  have 1: "onEnded appABC = skipTrack ''next'' appABC"
    by (simp add: onEnded_def appABC_def)
  have 2: "findIndex (same_id (app_currentTrack appABC)) (tracks appABC) = 2"
    by (simp add: appABC_def same_id_def trackA_def trackB_def trackC_def)
  have 3: "skipTrack ''next'' appABC = playTrack (js_index (tracks appABC) 0) appABC"
    unfolding skipTrack_def Let_def 2 by (simp add: appABC_def)
  have 4: "js_index (tracks appABC) 0 = Some trackA"
    by (simp add: js_index_def appABC_def)
  have 5: "playTrack (Some trackA) appABC
     = Inr (appABC\<lparr>playTrack_calls := [Some trackA], app_currentTrack := Some trackA,
              app_currentTime := 0,
              app_audioRef := Some (load (element0\<lparr>el_src := ''a.mp3''\<rparr>))\<rparr>)"
    by (simp add: playTrack_def Let_def same_id_def appABC_def trackA_def trackC_def)
  have app: "onEnded appABC
     = Inr (appABC\<lparr>playTrack_calls := [Some trackA], app_currentTrack := Some trackA,
              app_currentTime := 0,
              app_audioRef := Some (load (element0\<lparr>el_src := ''a.mp3''\<rparr>))\<rparr>)"
    unfolding 1 3 4 5 ..
  have 7: "handleNext 0 (closure_state (playerABC\<lparr>repeatMode := RepeatAll\<rparr>) playerABC)
     = Inr (onTrackChange (Some trackA)
              (closure_state (playerABC\<lparr>repeatMode := RepeatAll\<rparr>) playerABC))"
    by (simp add: handleNext_def closure_state_def playerABC_def Let_def js_index_def
        same_id_def trackA_def trackB_def trackC_def onTrackChange_def)
  have stale: "handleEnded 0 (playerABC\<lparr>repeatMode := RepeatAll\<rparr>) playerABC
       = Inr (onTrackChange (Some trackA) playerABC)"
    unfolding handleEnded_def 7
    by (simp add: closure_state_def onTrackChange_def playerABC_def)
  from app stale show ?thesis
    by (simp add: appABC_def playerABC_def onTrackChange_def)
qed




text \<open>
  C4 (code defect). The claim asks that, with repeat mode \<open>all\<close> and shuffle off, the
  end of the track at the last index selects index \<open>0\<close> and playback continues. The
  AudioPlayer listener installed while repeat mode was off does not do so after repeat
  mode has been switched to \<open>all\<close>: with playlist \<open>[A, B, C]\<close> and current track \<open>C\<close>
  it sets \<open>isPlaying\<close> to false and makes no call to the sink.
\<close>

theorem C4_track_end_repeat_all:
  "repeatMode (playerABC\<lparr>repeatMode := RepeatAll\<rparr>) = RepeatAll
   \<and> \<not> isShuffled (playerABC\<lparr>repeatMode := RepeatAll\<rparr>)
   \<and> currentTrack (playerABC\<lparr>repeatMode := RepeatAll\<rparr>)
       = Some (last (playlist (playerABC\<lparr>repeatMode := RepeatAll\<rparr>)))
   \<and> handleEnded 0 playerABC (playerABC\<lparr>repeatMode := RepeatAll\<rparr>)
       = Inr (playerABC\<lparr>repeatMode := RepeatAll, isPlaying := False\<rparr>)
   \<and> onTrackChange_calls (playerABC\<lparr>repeatMode := RepeatAll, isPlaying := False\<rparr>) = []"
proof -
  have n: "handleNext 0 (closure_state playerABC (playerABC\<lparr>repeatMode := RepeatAll\<rparr>))
     = Inr ((closure_state playerABC (playerABC\<lparr>repeatMode := RepeatAll\<rparr>))
              \<lparr>isPlaying := False\<rparr>)"
    by (simp add: handleNext_def closure_state_def playerABC_def Let_def
        same_id_def trackA_def trackB_def trackC_def)
  have "handleEnded 0 playerABC (playerABC\<lparr>repeatMode := RepeatAll\<rparr>)
       = Inr (playerABC\<lparr>repeatMode := RepeatAll, isPlaying := False\<rparr>)"
    unfolding handleEnded_def n by (simp add: closure_state_def playerABC_def)
  then show ?thesis by (simp add: playerABC_def)
qed

text \<open>
  C5. On a non-empty playlist with a sink registered, \<open>handlePrevious\<close> passes to the
  sink the track at index \<open>currentIndex - 1\<close> when \<open>currentIndex > 0\<close> and the last track
  of the playlist otherwise, where \<open>currentIndex\<close> is what \<open>findIndex\<close> returns. On a
  playlist without duplicate ids this is the track before the current one when the
  current track is at index \<open>i > 0\<close>, and the last track both when the current track is
  at index \<open>0\<close> and when no track of the playlist has the current track's id.
\<close>

theorem C5_previous:
  assumes "playlist s \<noteq> []" and "hasOnTrackChange s"
  shows "handlePrevious s
           = Inr (onTrackChange
                   (Some (playlist s !
                      (if 0 < findIndex (same_id (currentTrack s)) (playlist s)
                       then nat (findIndex (same_id (currentTrack s)) (playlist s) - 1)
                       else length (playlist s) - 1))) s)
       \<and> (distinct (map track_id (playlist s)) \<and> i < length (playlist s)
            \<and> currentTrack s = Some (playlist s ! i) \<longrightarrow>
          handlePrevious s
            = Inr (onTrackChange
                    (Some (playlist s ! (if i = 0 then length (playlist s) - 1 else i - 1))) s))
       \<and> ((\<forall>t \<in> set (playlist s). \<not> same_id (currentTrack s) t) \<longrightarrow>
          handlePrevious s = Inr (onTrackChange (Some (last (playlist s))) s))"
proof (intro conjI impI)
  have lastidx: "js_index (playlist s) (int (length (playlist s)) - 1)
                   = Some (playlist s ! (length (playlist s) - 1))"
    using assms(1) js_index_nat [of "length (playlist s) - 1" "playlist s"]
    by (cases "playlist s") simp_all
  show "handlePrevious s
           = Inr (onTrackChange
                   (Some (playlist s !
                      (if 0 < findIndex (same_id (currentTrack s)) (playlist s)
                       then nat (findIndex (same_id (currentTrack s)) (playlist s) - 1)
                       else length (playlist s) - 1))) s)"
  proof (cases "0 < findIndex (same_id (currentTrack s)) (playlist s)")
    case True
    moreover have "findIndex (same_id (currentTrack s)) (playlist s) < int (length (playlist s))"
      by (rule findIndex_lt)
    ultimately have "js_index (playlist s) (findIndex (same_id (currentTrack s)) (playlist s) - 1)
        = Some (playlist s ! nat (findIndex (same_id (currentTrack s)) (playlist s) - 1))"
      by (simp add: js_index_def)
    with True assms show ?thesis by (simp add: handlePrevious_def Let_def)
  next
    case False
    with assms lastidx show ?thesis by (simp add: handlePrevious_def Let_def)
  qed
  {
    assume h: "distinct (map track_id (playlist s)) \<and> i < length (playlist s)
            \<and> currentTrack s = Some (playlist s ! i)"
    then have ci: "findIndex (same_id (currentTrack s)) (playlist s) = int i"
      by (simp add: findIndex_same_id)
    show "handlePrevious s
            = Inr (onTrackChange
                    (Some (playlist s ! (if i = 0 then length (playlist s) - 1 else i - 1))) s)"
    proof (cases "i = 0")
      case True
      with assms ci lastidx show ?thesis by (simp add: handlePrevious_def Let_def)
    next
      case False
      with h have "js_index (playlist s) (int i - 1) = Some (playlist s ! (i - 1))"
        by (auto simp: js_index_def nat_diff_distrib')
      with False assms ci show ?thesis by (simp add: handlePrevious_def Let_def)
    qed
  }
  {
    assume "\<forall>t \<in> set (playlist s). \<not> same_id (currentTrack s) t"
    then have "findIndex (same_id (currentTrack s)) (playlist s) = - 1"
      by (rule findIndex_none)
    with assms lastidx show "handlePrevious s = Inr (onTrackChange (Some (last (playlist s))) s)"
      by (simp add: handlePrevious_def Let_def last_conv_nth)
  }
qed

theorem C5_previous_witness:
  "handlePrevious playerABC = Inr (onTrackChange (Some trackB) playerABC)
   \<and> handlePrevious (playerABC\<lparr>currentTrack := Some trackA\<rparr>)
       = Inr (onTrackChange (Some trackC) (playerABC\<lparr>currentTrack := Some trackA\<rparr>))
   \<and> handlePrevious (playerABC\<lparr>currentTrack := None\<rparr>)
       = Inr (onTrackChange (Some trackC) (playerABC\<lparr>currentTrack := None\<rparr>))"
proof -
  let ?a = "playerABC\<lparr>currentTrack := Some trackA\<rparr>"
  let ?n = "playerABC\<lparr>currentTrack := None\<rparr>"
  have ne: "playlist playerABC \<noteq> []" "playlist ?a \<noteq> []" "playlist ?n \<noteq> []"
    by (simp_all add: playerABC_def)
  have sk: "hasOnTrackChange playerABC" "hasOnTrackChange ?a" "hasOnTrackChange ?n"
    by (simp_all add: playerABC_def)
  have g1: "distinct (map track_id (playlist playerABC)) \<and> 2 < length (playlist playerABC)
            \<and> currentTrack playerABC = Some (playlist playerABC ! 2)"
    by (simp add: playerABC_def trackA_def trackB_def trackC_def)
  have g2: "distinct (map track_id (playlist ?a)) \<and> 0 < length (playlist ?a)
            \<and> currentTrack ?a = Some (playlist ?a ! 0)"
    by (simp add: playerABC_def trackA_def trackB_def trackC_def)
  have g3: "\<forall>t \<in> set (playlist ?n). \<not> same_id (currentTrack ?n) t"
    by (simp add: same_id_def)
  have p: "playlist playerABC ! (if (2::nat) = 0 then length (playlist playerABC) - 1 else 2 - 1) = trackB"
    "playlist ?a ! (if (0::nat) = 0 then length (playlist ?a) - 1 else 0 - 1) = trackC"
    "last (playlist ?n) = trackC"
    by (simp_all add: playerABC_def)
  from C5_previous [OF ne(1) sk(1), of 2] g1
  have A: "handlePrevious playerABC = Inr (onTrackChange (Some trackB) playerABC)"
    unfolding p by blast
  from C5_previous [OF ne(2) sk(2), of 0] g2
  have B: "handlePrevious ?a = Inr (onTrackChange (Some trackC) ?a)"
    unfolding p by blast
  from C5_previous [OF ne(3) sk(3), of 0] g3
  have C: "handlePrevious ?n = Inr (onTrackChange (Some trackC) ?n)"
    unfolding p by blast
  from A B C show ?thesis by simp
qed

text \<open>
  C6. If the playlist is empty or no \<open>onTrackChange\<close> sink is registered, both
  \<open>handleNext\<close> and \<open>handlePrevious\<close> return normally with the state exactly as it was:
  the sink is not called, \<open>currentTrack\<close> and every other field are unchanged, and no
  error is raised.
\<close>

theorem C6_advance_noop:
  "playlist s = [] \<or> \<not> hasOnTrackChange s \<Longrightarrow>
     handleNext rnd s = Inr s \<and> handlePrevious s = Inr s"
  by (auto simp: handleNext_def handlePrevious_def)

theorem C6_advance_noop_witness:
  "handleNext 0 (playerABC\<lparr>playlist := []\<rparr>) = Inr (playerABC\<lparr>playlist := []\<rparr>)
   \<and> handlePrevious (playerABC\<lparr>playlist := []\<rparr>) = Inr (playerABC\<lparr>playlist := []\<rparr>)
   \<and> handleNext 0 (playerABC\<lparr>hasOnTrackChange := False\<rparr>)
       = Inr (playerABC\<lparr>hasOnTrackChange := False\<rparr>)
   \<and> handlePrevious (playerABC\<lparr>hasOnTrackChange := False\<rparr>)
       = Inr (playerABC\<lparr>hasOnTrackChange := False\<rparr>)"
proof -
  have h1: "playlist (playerABC\<lparr>playlist := []\<rparr>) = []
            \<or> \<not> hasOnTrackChange (playerABC\<lparr>playlist := []\<rparr>)"
    by simp
  have h2: "playlist (playerABC\<lparr>hasOnTrackChange := False\<rparr>) = []
            \<or> \<not> hasOnTrackChange (playerABC\<lparr>hasOnTrackChange := False\<rparr>)"
    by simp
  show ?thesis
    using C6_advance_noop [OF h1, of 0] C6_advance_noop [OF h2, of 0] by simp
qed

section \<open>Frequency data: claims C7 and C8\<close>

text \<open>
  C7 (as amended). With no analyser bound, \<open>getFrequencyData\<close> returns normally and its
  result is the empty buffer (length \<open>0\<close>); with an analyser bound the buffer has
  \<open>frequencyBinCount\<close> entries.
\<close>

theorem C7_no_analyzer:
  "getFrequencyData None = []
   \<and> length (getFrequencyData (Some a)) = frequencyBinCount a"
  by (simp add: getFrequencyData_def)

theorem C7_no_analyzer_witness:
  "getFrequencyData None = []
   \<and> length (getFrequencyData (Some (createAudioContext_analyzer (\<lambda>k. 0)))) = 128"
  using C7_no_analyzer [of "createAudioContext_analyzer (\<lambda>k. 0)"]
  by (simp add: frequencyBinCount_def createAudioContext_analyzer_def)

text \<open>
  The claim as written fails: the buffer returned without an analyser has length \<open>0\<close>,
  not the \<open>128\<close> bins that \<open>createAudioContext\<close> configures.
\<close>

theorem C7_length_counterexample:
  "length (getFrequencyData None) = 0
   \<and> frequencyBinCount (createAudioContext_analyzer (\<lambda>k. 0)) = 128
   \<and> length (getFrequencyData None) \<noteq> frequencyBinCount (createAudioContext_analyzer (\<lambda>k. 0))"
  by (simp add: getFrequencyData_def frequencyBinCount_def createAudioContext_analyzer_def)

text \<open>
  C8. The hook's \<open>frequencyData\<close> state only ever holds the empty array or the buffer
  that \<open>getFrequencyData\<close> fills for its analyser, which has at least \<open>16\<close> bins. For
  every such sample (indeed from ten bins on) \<open>getFrequencyBins\<close> splits the bins into
  three contiguous, non-empty sub-ranges (the first tenth as bass, the bins from there
  up to four tenths as mid, the remainder as treble) and returns for each the
  arithmetic mean of its bytes divided by \<open>255\<close>, a value in \<open>[0, 1]\<close>; an empty sample
  yields \<open>bass = mid = treble = 0\<close>. Numbers are exact reals here.
\<close>

theorem C8_band_summary:
  "(frequencyData = [] \<longrightarrow>
      getFrequencyBins frequencyData = \<lparr>bass = Num 0, mid = Num 0, treble = Num 0\<rparr>)
   \<and> (10 \<le> length frequencyData \<longrightarrow>
        frequencyData = band_low frequencyData @ band_mid frequencyData @ band_high frequencyData
        \<and> band_low frequencyData \<noteq> [] \<and> band_mid frequencyData \<noteq> []
        \<and> band_high frequencyData \<noteq> []
        \<and> getFrequencyBins frequencyData =
            \<lparr>bass = Num (arithmetic_mean (band_low frequencyData) / 255),
             mid = Num (arithmetic_mean (band_mid frequencyData) / 255),
             treble = Num (arithmetic_mean (band_high frequencyData) / 255)\<rparr>
        \<and> 0 \<le> arithmetic_mean (band_low frequencyData) / 255
        \<and> arithmetic_mean (band_low frequencyData) / 255 \<le> 1
        \<and> 0 \<le> arithmetic_mean (band_mid frequencyData) / 255
        \<and> arithmetic_mean (band_mid frequencyData) / 255 \<le> 1
        \<and> 0 \<le> arithmetic_mean (band_high frequencyData) / 255
        \<and> arithmetic_mean (band_high frequencyData) / 255 \<le> 1)"
proof (intro conjI impI)
  assume "frequencyData = []"
  then show "getFrequencyBins frequencyData = \<lparr>bass = Num 0, mid = Num 0, treble = Num 0\<rparr>"
    by (simp add: getFrequencyBins_def)
next
  show "frequencyData = band_low frequencyData @ band_mid frequencyData @ band_high frequencyData"
    by (rule bands_partition)
next
  assume len: "10 \<le> length frequencyData"
  then have "0 < length (band_low frequencyData)" by (simp add: bands_lengths)
  then show l: "band_low frequencyData \<noteq> []" by auto
  from len have "0 < length (band_mid frequencyData)"
    unfolding bands_lengths by linarith
  then show m: "band_mid frequencyData \<noteq> []" by auto
  from len have "0 < length (band_high frequencyData)"
    unfolding bands_lengths by linarith
  then show h: "band_high frequencyData \<noteq> []" by auto
  from len show "getFrequencyBins frequencyData =
            \<lparr>bass = Num (arithmetic_mean (band_low frequencyData) / 255),
             mid = Num (arithmetic_mean (band_mid frequencyData) / 255),
             treble = Num (arithmetic_mean (band_high frequencyData) / 255)\<rparr>"
    by (rule getFrequencyBins_means)
  from mean_bounds [OF l] show "0 \<le> arithmetic_mean (band_low frequencyData) / 255"
    and "arithmetic_mean (band_low frequencyData) / 255 \<le> 1" by simp_all
  from mean_bounds [OF m] show "0 \<le> arithmetic_mean (band_mid frequencyData) / 255"
    and "arithmetic_mean (band_mid frequencyData) / 255 \<le> 1" by simp_all
  from mean_bounds [OF h] show "0 \<le> arithmetic_mean (band_high frequencyData) / 255"
    and "arithmetic_mean (band_high frequencyData) / 255 \<le> 1" by simp_all
qed

theorem C8_band_summary_witness:
  "getFrequencyBins [] = \<lparr>bass = Num 0, mid = Num 0, treble = Num 0\<rparr>
   \<and> 10 \<le> length sample16
   \<and> sample16 = [255] @ [0, 255, 255, 0, 0] @ [51, 51, 0, 0, 0, 0, 0, 0, 0, 0]
   \<and> getFrequencyBins sample16 = \<lparr>bass = Num 1, mid = Num (2 / 5), treble = Num (1 / 25)\<rparr>"
proof -
  have len: "10 \<le> length sample16" by (simp add: sample16_def)
  have lo: "band_low sample16 = [255]" by (simp add: band_low_def sample16_def)
  have mi: "band_mid sample16 = [0, 255, 255, 0, 0]" by (simp add: band_mid_def sample16_def)
  have hi: "band_high sample16 = [51, 51, 0, 0, 0, 0, 0, 0, 0, 0]"
    by (simp add: band_high_def sample16_def)
  have m1: "arithmetic_mean [255] / 255 = 1" by (simp add: arithmetic_mean_def)
  have m2: "arithmetic_mean [0, 255, 255, 0, 0] / 255 = 2 / 5"
    by (simp add: arithmetic_mean_def)
  have m3: "arithmetic_mean [51, 51, 0, 0, 0, 0, 0, 0, 0, 0] / 255 = 1 / 25"
    by (simp add: arithmetic_mean_def)
  from C8_band_summary [of "[]"]
  have A: "getFrequencyBins [] = \<lparr>bass = Num 0, mid = Num 0, treble = Num 0\<rparr>" by blast
  note T = C8_band_summary [of sample16]
  from T len
  have "sample16 = band_low sample16 @ band_mid sample16 @ band_high sample16" by blast
  then have P: "sample16 = [255] @ [0, 255, 255, 0, 0] @ [51, 51, 0, 0, 0, 0, 0, 0, 0, 0]"
    unfolding lo mi hi .
  from T len
  have "getFrequencyBins sample16 =
            \<lparr>bass = Num (arithmetic_mean (band_low sample16) / 255),
             mid = Num (arithmetic_mean (band_mid sample16) / 255),
             treble = Num (arithmetic_mean (band_high sample16) / 255)\<rparr>" by blast
  then have B: "getFrequencyBins sample16
      = \<lparr>bass = Num 1, mid = Num (2 / 5), treble = Num (1 / 25)\<rparr>"
    unfolding lo mi hi m1 m2 m3 .
  from A len P B show ?thesis by blast
qed

section \<open>Volume and mute: claim C9\<close>

text \<open>
  C9 (as amended). For every click on a volume bar of positive width, the volume that
  \<open>handleVolumeChange\<close> stores and applies to the element is the requested level
  clamped into \<open>[0, 1]\<close>, and the hook's \<open>setVolume\<close> applies the clamped level to the
  gain node when there is one. \<open>handleVolumeChange\<close> sets the mute flag to whether the
  clamped volume equals \<open>0\<close>; \<open>toggleMute\<close> flips the flag when the element exists.
\<close>

theorem C9_volume_clamped:
  "(0 < rect_width e \<longrightarrow>
      volume (handleVolumeChange e s)
        = (if (clientX e - rect_left e) / rect_width e < 0 then 0
           else if 1 < (clientX e - rect_left e) / rect_width e then 1
           else (clientX e - rect_left e) / rect_width e)
      \<and> 0 \<le> volume (handleVolumeChange e s) \<and> volume (handleVolumeChange e s) \<le> 1
      \<and> map_option el_volume (audioRef (handleVolumeChange e s))
          = map_option (\<lambda>a. volume (handleVolumeChange e s)) (audioRef s)
      \<and> isMuted (handleVolumeChange e s) = (volume (handleVolumeChange e s) = 0))
   \<and> setVolume level (Some g)
       = Some (if level < 0 then 0 else if 1 < level then 1 else level)
   \<and> setVolume level None = None
   \<and> (audioRef s \<noteq> None \<longrightarrow> isMuted (toggleMute s) = (\<not> isMuted s))"
proof (intro conjI impI)
  assume "audioRef s \<noteq> None"
  then show "isMuted (toggleMute s) = (\<not> isMuted s)"
    by (auto simp: toggleMute_def)
next
  let ?p = "(clientX e - rect_left e) / rect_width e"
  have v: "volume (handleVolumeChange e s) = max 0 (min 1 ?p)"
    by (simp add: handleVolumeChange_def Let_def)
  show "volume (handleVolumeChange e s) = (if ?p < 0 then 0 else if 1 < ?p then 1 else ?p)"
    unfolding v by (simp add: max_def min_def)
  show "0 \<le> volume (handleVolumeChange e s)" unfolding v by simp
  show "volume (handleVolumeChange e s) \<le> 1" unfolding v by simp
  show "map_option el_volume (audioRef (handleVolumeChange e s))
          = map_option (\<lambda>a. volume (handleVolumeChange e s)) (audioRef s)"
    by (cases "audioRef s") (simp_all add: handleVolumeChange_def Let_def)
  show "isMuted (handleVolumeChange e s) = (volume (handleVolumeChange e s) = 0)"
    by (simp add: handleVolumeChange_def Let_def)
  show "setVolume level (Some g) = Some (if level < 0 then 0 else if 1 < level then 1 else level)"
    by (simp add: setVolume_def max_def min_def)
  show "setVolume level None = None" by (simp add: setVolume_def)
qed

theorem C9_volume_clamped_witness:
  "0 < rect_width click_above \<and> volume (handleVolumeChange click_above playerABC) = 1
   \<and> \<not> isMuted (handleVolumeChange click_above playerABC)
   \<and> 0 < rect_width click_below \<and> volume (handleVolumeChange click_below playerABC) = 0
   \<and> isMuted (handleVolumeChange click_below playerABC)
   \<and> setVolume 1.4 (Some 0.5) = Some 1 \<and> setVolume (- 0.2) (Some 0.5) = Some 0
   \<and> isMuted (toggleMute playerABC)"
proof -
  have w: "0 < rect_width click_above" "0 < rect_width click_below"
    by (simp_all add: click_above_def click_below_def)
  have pa: "(clientX click_above - rect_left click_above) / rect_width click_above = 7 / 5"
    by (simp add: click_above_def)
  have pb: "(clientX click_below - rect_left click_below) / rect_width click_below = - 1 / 5"
    by (simp add: click_below_def)
  note A = C9_volume_clamped [of click_above playerABC "1.4" "0.5"]
  note B = C9_volume_clamped [of click_below playerABC "- 0.2" "0.5"]
  from A w(1) have a1: "volume (handleVolumeChange click_above playerABC) = 1"
    unfolding pa by simp
  from A w(1) have "isMuted (handleVolumeChange click_above playerABC)
      = (volume (handleVolumeChange click_above playerABC) = 0)" by blast
  with a1 have a2: "\<not> isMuted (handleVolumeChange click_above playerABC)" by simp
  from B w(2) have b1: "volume (handleVolumeChange click_below playerABC) = 0"
    unfolding pb by simp
  from B w(2) have "isMuted (handleVolumeChange click_below playerABC)
      = (volume (handleVolumeChange click_below playerABC) = 0)" by blast
  with b1 have b2: "isMuted (handleVolumeChange click_below playerABC)" by simp
  from A have a3: "setVolume 1.4 (Some 0.5) = Some 1" by simp
  from B have b3: "setVolume (- 0.2) (Some 0.5) = Some 0" by simp
  have el: "audioRef playerABC \<noteq> None" by (simp add: playerABC_def)
  with A have "isMuted (toggleMute playerABC) = (\<not> isMuted playerABC)" by blast
  then have c: "isMuted (toggleMute playerABC)" by (simp add: playerABC_def)
  from w a1 a2 b1 b2 a3 b3 c show ?thesis by blast
qed

text \<open>
  The claim as written fails in its second half: a request of \<open>-0.2\<close> on an unmuted
  player is clamped to \<open>0\<close> and the mute flag becomes true, with no call of
  \<open>toggleMute\<close>.
\<close>

theorem C9_mute_by_zero_volume_counterexample:
  "\<not> isMuted playerABC
   \<and> (clientX click_below - rect_left click_below) / rect_width click_below = - 0.2
   \<and> volume (handleVolumeChange click_below playerABC) = 0
   \<and> isMuted (handleVolumeChange click_below playerABC)"
  by (simp add: handleVolumeChange_def Let_def click_below_def playerABC_def)

section \<open>Selected tracks belong to the playlist: claim C10\<close>

text \<open>
  C10. Whenever the traversal code calls the sink or \<open>playTrack\<close>, the argument is the
  playlist element at an index within \<open>[0, length - 1]\<close>. For \<open>handleNext\<close> (with the
  random draw in \<open>[0, 1)\<close>, as \<open>Math.random\<close> returns it) at most one call is added and
  its argument is such an element, in the shuffle branch, in the natural branch with
  its wrap and when the current track is not found; \<open>handlePrevious\<close> and \<open>skipTrack\<close>
  always return normally and likewise add at most one call with such an argument.
\<close>

theorem C10_selected_track_in_playlist:
  "(0 \<le> rnd \<and> rnd < 1 \<and> handleNext rnd s = Inr s' \<longrightarrow>
      onTrackChange_calls s' = onTrackChange_calls s
      \<or> (\<exists>i<length (playlist s).
            onTrackChange_calls s' = onTrackChange_calls s @ [Some (playlist s ! i)]))
   \<and> (\<exists>p'. handlePrevious s = Inr p'
         \<and> (onTrackChange_calls p' = onTrackChange_calls s
            \<or> (\<exists>i<length (playlist s).
                  onTrackChange_calls p' = onTrackChange_calls s @ [Some (playlist s ! i)])))
   \<and> (\<exists>a'. skipTrack direction a = Inr a'
         \<and> (playTrack_calls a' = playTrack_calls a
            \<or> (\<exists>i<length (tracks a).
                  playTrack_calls a' = playTrack_calls a @ [Some (tracks a ! i)])))"
proof (intro conjI impI)
  assume "0 \<le> rnd \<and> rnd < 1 \<and> handleNext rnd s = Inr s'"
  then have "onTrackChange_calls s' = onTrackChange_calls s
         \<or> (\<exists>i<length (playlist s). s' = onTrackChange (Some (playlist s ! i)) s)"
    using handleNext_selects [of rnd s s'] by simp
  then show "onTrackChange_calls s' = onTrackChange_calls s
      \<or> (\<exists>i<length (playlist s).
            onTrackChange_calls s' = onTrackChange_calls s @ [Some (playlist s ! i)])"
    by (auto simp: onTrackChange_def)
next
  from handlePrevious_selects [of s]
  show "\<exists>p'. handlePrevious s = Inr p'
         \<and> (onTrackChange_calls p' = onTrackChange_calls s
            \<or> (\<exists>i<length (playlist s).
                  onTrackChange_calls p' = onTrackChange_calls s @ [Some (playlist s ! i)]))"
  proof
    assume "handlePrevious s = Inr s"
    then show ?thesis by simp
  next
    assume "\<exists>i<length (playlist s).
              handlePrevious s = Inr (onTrackChange (Some (playlist s ! i)) s)"
    then obtain i where "i < length (playlist s)"
      and "handlePrevious s = Inr (onTrackChange (Some (playlist s ! i)) s)" by blast
    then show ?thesis by (auto simp: onTrackChange_def)
  qed
next
  from skipTrack_selects [of direction a]
  show "\<exists>a'. skipTrack direction a = Inr a'
         \<and> (playTrack_calls a' = playTrack_calls a
            \<or> (\<exists>i<length (tracks a).
                  playTrack_calls a' = playTrack_calls a @ [Some (tracks a ! i)]))"
  proof
    assume "skipTrack direction a = Inr a"
    then show ?thesis by simp
  next
    assume "\<exists>i<length (tracks a). skipTrack direction a = playTrack (Some (tracks a ! i)) a"
    then obtain i where i: "i < length (tracks a)"
      and sk: "skipTrack direction a = playTrack (Some (tracks a ! i)) a" by blast
    from playTrack_Some_ok obtain a' where a': "playTrack (Some (tracks a ! i)) a = Inr a'"
      by blast
    then have "playTrack_calls a' = playTrack_calls a @ [Some (tracks a ! i)]"
      by (rule playTrack_calls_Some)
    with i sk a' show ?thesis by auto
  qed
qed

theorem C10_selected_track_in_playlist_witness:
  "(0::real) \<le> 1 / 2 \<and> (1::real) / 2 < 1
   \<and> handleNext (1 / 2) (playerABC\<lparr>currentTrack := Some trackA, isShuffled := True\<rparr>)
       = Inr (onTrackChange (Some trackB) (playerABC\<lparr>currentTrack := Some trackA, isShuffled := True\<rparr>))
   \<and> (onTrackChange_calls (onTrackChange (Some trackB) (playerABC\<lparr>currentTrack := Some trackA, isShuffled := True\<rparr>))
         = onTrackChange_calls (playerABC\<lparr>currentTrack := Some trackA, isShuffled := True\<rparr>)
       \<or> (\<exists>i<length (playlist (playerABC\<lparr>currentTrack := Some trackA, isShuffled := True\<rparr>)).
            onTrackChange_calls (onTrackChange (Some trackB) (playerABC\<lparr>currentTrack := Some trackA, isShuffled := True\<rparr>))
              = onTrackChange_calls (playerABC\<lparr>currentTrack := Some trackA, isShuffled := True\<rparr>)
                @ [Some (playlist (playerABC\<lparr>currentTrack := Some trackA, isShuffled := True\<rparr>) ! i)]))"
proof -
  let ?s = "playerABC\<lparr>currentTrack := Some trackA, isShuffled := True\<rparr>"
  have fl: "\<lfloor>(1::real) / 2 * real (length [trackA, trackB, trackC])\<rfloor> = 1" by simp
  have h: "(0::real) \<le> 1 / 2" "(1::real) / 2 < 1" by simp_all
  have ci: "findIndex (same_id (currentTrack ?s)) (playlist ?s) = 0"
    by (simp add: playerABC_def same_id_def trackA_def trackB_def trackC_def)
  have run: "handleNext (1 / 2) ?s = Inr (onTrackChange (Some trackB) ?s)"
    unfolding handleNext_def Let_def ci
    by (simp add: playerABC_def fl js_index_def)
  from C10_selected_track_in_playlist
         [of "1 / 2" ?s "onTrackChange (Some trackB) ?s" "''next''" appABC] h run
  show ?thesis by blast
qed

end
